theory Spec2Isabelle
  imports Main "HOL-Library.Multiset" "HOL-Library.Char_ord" "HOL-Library.List_Lexorder"
begin

section \<open>Data model (core/models.py)\<close>

text \<open>
  Identifiers are the strings produced by \<^verbatim>\<open>str(uuid.uuid4())\<close>; timestamps are the
  ISO-8601 texts kept in the \<^verbatim>\<open>TEXT\<close> columns of the SQLite tables. A dataclass
  becomes a record; the field names carry a prefix because several dataclasses share
  the names \<^verbatim>\<open>id\<close>, \<^verbatim>\<open>record_id\<close>, \<^verbatim>\<open>created_by\<close> and \<^verbatim>\<open>created_at\<close>.
\<close>

type_synonym ident = string
type_synonym iso_text = string

record user =
  usr_id :: ident
  usr_display_name :: string
  usr_email :: string
  usr_role :: string

text \<open>
  A value stored under a tracked key of \<^verbatim>\<open>ai_metadata\<close>: JSON \<^verbatim>\<open>null\<close> or a list of
  strings (every writer of the application builds these two values as lists of
  \<^verbatim>\<open>str\<close>). A metadata document is a dictionary; a key that is missing maps to
  \<open>None\<close>.
\<close>

datatype meta_value = MNull | MList "string list"

type_synonym meta = "string \<rightharpoonup> meta_value"

text \<open>
  The content document of a version, with the three keys that \<^verbatim>\<open>show_editor\<close> and
  \<^verbatim>\<open>ensure_demo_data\<close> write. \<open>cnt_ai_metadata = None\<close> is a document whose
  \<^verbatim>\<open>ai_metadata\<close> key is missing or \<^verbatim>\<open>null\<close>.
\<close>

record content =
  cnt_business_problem :: string
  cnt_description :: string
  cnt_ai_metadata :: "meta option"

record record_row =
  rec_id :: ident
  rec_title :: string
  rec_record_type :: string
  rec_current_version_id :: "ident option"
  rec_created_by :: ident
  rec_created_at :: iso_text
  rec_status :: string

record record_version =
  ver_id :: ident
  ver_record_id :: ident
  ver_version_number :: int
  ver_content :: content
  ver_created_by :: ident
  ver_created_by_name :: string
  ver_created_at :: iso_text
  ver_version_type :: string
  ver_parent_version_id :: "ident option"

record override_event =
  ovr_id :: ident
  ovr_record_id :: ident
  ovr_version_id :: ident
  ovr_field_path :: string
  ovr_original_value :: "string list"
  ovr_new_value :: "string list"
  ovr_overridden_by :: ident
  ovr_overridden_by_name :: string
  ovr_overridden_at :: iso_text

record comment =
  cmt_id :: ident
  cmt_record_id :: ident
  cmt_version_id :: "ident option"
  cmt_author_id :: ident
  cmt_author_name :: string
  cmt_role :: string
  cmt_text :: string
  cmt_created_at :: iso_text

section \<open>Role policy (core/roles.py)\<close>

definition USER :: string where "USER = ''user''"
definition ADMIN :: string where "ADMIN = ''admin''"
definition VIEWER :: string where "VIEWER = ''viewer''"

definition is_user :: "user \<Rightarrow> bool" where
  "is_user u \<longleftrightarrow> usr_role u = USER"

definition is_admin :: "user \<Rightarrow> bool" where
  "is_admin u \<longleftrightarrow> usr_role u = ADMIN"

definition is_viewer :: "user \<Rightarrow> bool" where
  "is_viewer u \<longleftrightarrow> usr_role u = VIEWER"

section \<open>Diff engine (app.py, diff_ai_metadata)\<close>

text \<open>
  \<^verbatim>\<open>meta.get(key, []) or []\<close>: a missing key gives the default, and a falsy value
  (\<^verbatim>\<open>None\<close> or the empty list) is replaced by the empty list.
\<close>

definition get_or_empty :: "meta \<Rightarrow> string \<Rightarrow> string list" where
  "get_or_empty m k = (case m k of None \<Rightarrow> [] | Some MNull \<Rightarrow> [] | Some (MList xs) \<Rightarrow> xs)"

text \<open>\<^verbatim>\<open>old_meta or {}\<close>: an absent document is the empty dictionary.\<close>

definition or_empty_dict :: "meta option \<Rightarrow> meta" where
  "or_empty_dict mo = (case mo of None \<Rightarrow> Map.empty | Some m \<Rightarrow> m)"

type_synonym override = "string \<times> string list \<times> string list"

definition diff_ai_metadata :: "meta option \<Rightarrow> meta option \<Rightarrow> override list" where
  "diff_ai_metadata old_meta new_meta =
     (let old_m = or_empty_dict old_meta;
          new_m = or_empty_dict new_meta;
          old_framework = get_or_empty old_m ''framework_tags'';
          new_framework = get_or_empty new_m ''framework_tags'';
          overrides1 = (if old_framework \<noteq> new_framework
                        then [(''ai_metadata.framework_tags'', old_framework, new_framework)]
                        else []);
          old_caps = get_or_empty old_m ''capability_groups'';
          new_caps = get_or_empty new_m ''capability_groups''
      in if old_caps \<noteq> new_caps
         then overrides1 @ [(''ai_metadata.capability_groups'', old_caps, new_caps)]
         else overrides1)"

section \<open>The persistent store (core/repository.py, init_db)\<close>

text \<open>
  The four SQLite tables, each as the list of its rows in insertion order.
  \<open>init_db\<close> is the store right after the tables have been created.
\<close>

record db =
  records :: "record_row list"
  record_versions :: "record_version list"
  comments :: "comment list"
  override_events :: "override_event list"

definition init_db :: db where
  "init_db = \<lparr>records = [], record_versions = [], comments = [], override_events = []\<rparr>"

text \<open>
  The exceptions that the repository can raise: the \<^verbatim>\<open>ValueError\<close> of
  \<^verbatim>\<open>create_new_version\<close> (record not found), \<^verbatim>\<open>sqlite3.IntegrityError\<close> when an
  \<^verbatim>\<open>INSERT\<close> repeats a \<^verbatim>\<open>PRIMARY KEY\<close>, \<^verbatim>\<open>OverflowError\<close> when an integer
  parameter does not fit SQLite's 64-bit \<^verbatim>\<open>INTEGER\<close>, and the \<^verbatim>\<open>TypeError\<close> of
  \<^verbatim>\<open>", ".join(None)\<close> in the editor.
\<close>

datatype error = ValueError ident | IntegrityError | OverflowError | TypeError

text \<open>
  The system clock and the time-zone database are inputs. \<open>toronto_wall\<close> and
  \<open>toronto_offset\<close> are the wall-clock part and the offset suffix of
  \<^verbatim>\<open>datetime.now(TORONTO_TZ).isoformat()\<close>; \<open>utc_wall\<close> is
  \<^verbatim>\<open>datetime.utcnow().isoformat()\<close>, a naive value that carries no offset.
\<close>

record clock =
  toronto_wall :: string
  toronto_offset :: string
  utc_wall :: string

definition now_toronto_iso :: "clock \<Rightarrow> iso_text" where
  "now_toronto_iso clk = toronto_wall clk @ toronto_offset clk"

definition utcnow_isoformat :: "clock \<Rightarrow> iso_text" where
  "utcnow_isoformat clk = utc_wall clk"

subsection \<open>Statements\<close>

definition insert_record :: "record_row \<Rightarrow> db \<Rightarrow> error + db" where
  "insert_record r d =
     (if rec_id r \<in> set (map rec_id (records d)) then Inl IntegrityError
      else Inr (d\<lparr>records := records d @ [r]\<rparr>))"

definition insert_record_version :: "record_version \<Rightarrow> db \<Rightarrow> error + db" where
  "insert_record_version v d =
     (if ver_version_number v < - (2 ^ 63) \<or> 2 ^ 63 - 1 < ver_version_number v
      then Inl OverflowError
      else if ver_id v \<in> set (map ver_id (record_versions d)) then Inl IntegrityError
      else Inr (d\<lparr>record_versions := record_versions d @ [v]\<rparr>))"

definition insert_comment :: "comment \<Rightarrow> db \<Rightarrow> error + db" where
  "insert_comment c d =
     (if cmt_id c \<in> set (map cmt_id (comments d)) then Inl IntegrityError
      else Inr (d\<lparr>comments := comments d @ [c]\<rparr>))"

definition insert_override_event :: "override_event \<Rightarrow> db \<Rightarrow> error + db" where
  "insert_override_event e d =
     (if ovr_id e \<in> set (map ovr_id (override_events d)) then Inl IntegrityError
      else Inr (d\<lparr>override_events := override_events d @ [e]\<rparr>))"

text \<open>
  \<^verbatim>\<open>UPDATE records SET current_version_id = ?, status = ?, title = ? WHERE id = ?\<close>
\<close>

definition update_record :: "ident \<Rightarrow> string \<Rightarrow> string \<Rightarrow> ident \<Rightarrow> db \<Rightarrow> db" where
  "update_record version_id final_status new_title record_id d =
     d\<lparr>records :=
          map (\<lambda>r. if rec_id r = record_id
                    then r\<lparr>rec_current_version_id := Some version_id,
                           rec_status := final_status,
                           rec_title := new_title\<rparr>
                    else r) (records d)\<rparr>"

text \<open>\<^verbatim>\<open>MAX(version_number)\<close>: \<^verbatim>\<open>NULL\<close> over no rows.\<close>

fun sql_max :: "int list \<Rightarrow> int option" where
  "sql_max [] = None"
| "sql_max (x # xs) = Some (fold max xs x)"

text \<open>
  Every operation opens a connection, runs its statements and commits once at the
  end. An exception leaves before \<^verbatim>\<open>conn.commit()\<close>, and SQLite rolls the open
  transaction back when the connection goes away: the store is then the one the
  operation started from.
\<close>

definition commit_or_rollback :: "db \<Rightarrow> error + db \<times> 'a \<Rightarrow> db \<times> (error + 'a)" where
  "commit_or_rollback d res =
     (case res of Inl e \<Rightarrow> (d, Inl e) | Inr (d', x) \<Rightarrow> (d', Inr x))"

subsection \<open>Records and versions\<close>

definition create_record_with_initial_version ::
  "db \<Rightarrow> clock \<Rightarrow> ident \<Rightarrow> ident \<Rightarrow> string \<Rightarrow> string \<Rightarrow> content \<Rightarrow> user \<Rightarrow> string
   \<Rightarrow> db \<times> (error + record_row)" where
  "create_record_with_initial_version d clk record_id version_id title record_type
       content_doc usr status =
     (let now = now_toronto_iso clk;
          new_record = \<lparr>rec_id = record_id, rec_title = title,
                        rec_record_type = record_type,
                        rec_current_version_id = Some version_id,
                        rec_created_by = usr_id usr, rec_created_at = now,
                        rec_status = status\<rparr>;
          initial_version = \<lparr>ver_id = version_id, ver_record_id = record_id,
                             ver_version_number = 1, ver_content = content_doc,
                             ver_created_by = usr_id usr,
                             ver_created_by_name = usr_display_name usr,
                             ver_created_at = now, ver_version_type = ''draft'',
                             ver_parent_version_id = None\<rparr>
      in commit_or_rollback d
           (case insert_record new_record d of
              Inl e \<Rightarrow> Inl e
            | Inr d1 \<Rightarrow>
                (case insert_record_version initial_version d1 of
                   Inl e \<Rightarrow> Inl e
                 | Inr d2 \<Rightarrow> Inr (d2, new_record))))"

text \<open>
  \<^verbatim>\<open>ORDER BY created_at DESC\<close> compares the stored texts, greatest first. Rows with
  equal texts come out of SQLite's sorter in insertion order: the model sorts the
  reversed table with a stable ascending sort and reverses the result.
\<close>

definition order_by_created_at_desc :: "record_row list \<Rightarrow> record_row list" where
  "order_by_created_at_desc rows = rev (sort_key rec_created_at (rev rows))"

definition list_records_for_user :: "db \<Rightarrow> user \<Rightarrow> record_row list" where
  "list_records_for_user d usr =
     (if is_admin usr then order_by_created_at_desc (records d)
      else if is_user usr
      then order_by_created_at_desc
             (filter (\<lambda>r. rec_created_by r = usr_id usr) (records d))
      else order_by_created_at_desc
             (filter (\<lambda>r. rec_status r \<noteq> ''draft'') (records d)))"

definition get_record_by_id :: "db \<Rightarrow> ident \<Rightarrow> record_row option" where
  "get_record_by_id d record_id = find (\<lambda>r. rec_id r = record_id) (records d)"

definition get_current_version :: "db \<Rightarrow> ident \<Rightarrow> record_version option" where
  "get_current_version d record_id =
     (case find (\<lambda>r. rec_id r = record_id) (records d) of
        None \<Rightarrow> None
      | Some row \<Rightarrow>
          (case rec_current_version_id row of
             None \<Rightarrow> None
           | Some version_id \<Rightarrow> find (\<lambda>v. ver_id v = version_id) (record_versions d)))"

definition versions_of :: "db \<Rightarrow> ident \<Rightarrow> record_version list" where
  "versions_of d record_id = filter (\<lambda>v. ver_record_id v = record_id) (record_versions d)"

definition list_versions_for_record :: "db \<Rightarrow> ident \<Rightarrow> record_version list" where
  "list_versions_for_record d record_id =
     sort_key ver_version_number (versions_of d record_id)"

definition create_new_version ::
  "db \<Rightarrow> clock \<Rightarrow> ident \<Rightarrow> ident \<Rightarrow> string \<Rightarrow> content \<Rightarrow> user \<Rightarrow> string \<Rightarrow> string option
   \<Rightarrow> db \<times> (error + record_version)" where
  "create_new_version d clk version_id record_id new_title content_doc usr version_type
       new_status =
     commit_or_rollback d
       (case find (\<lambda>r. rec_id r = record_id) (records d) of
          None \<Rightarrow> Inl (ValueError record_id)
        | Some rec_row \<Rightarrow>
            (let parent_version_id = rec_current_version_id rec_row;
                 existing_status = rec_status rec_row;
                 max_v = (case sql_max (map ver_version_number (versions_of d record_id)) of
                            None \<Rightarrow> 0
                          | Some m \<Rightarrow> m);
                 next_version_number = (if max_v = 0 then 0 else max_v) + 1;
                 now = now_toronto_iso clk;
                 new_version = \<lparr>ver_id = version_id, ver_record_id = record_id,
                                ver_version_number = next_version_number,
                                ver_content = content_doc,
                                ver_created_by = usr_id usr,
                                ver_created_by_name = usr_display_name usr,
                                ver_created_at = now,
                                ver_version_type = version_type,
                                ver_parent_version_id = parent_version_id\<rparr>;
                 final_status = (case new_status of
                                   None \<Rightarrow> existing_status
                                 | Some s \<Rightarrow> s)
             in case insert_record_version new_version d of
                  Inl e \<Rightarrow> Inl e
                | Inr d1 \<Rightarrow>
                    Inr (update_record version_id final_status new_title record_id d1,
                         new_version)))"

subsection \<open>Comments\<close>

definition add_comment ::
  "db \<Rightarrow> clock \<Rightarrow> ident \<Rightarrow> ident \<Rightarrow> ident option \<Rightarrow> string \<Rightarrow> user \<Rightarrow> db \<times> (error + comment)" where
  "add_comment d clk comment_id record_id version_id text_body usr =
     (let now = utcnow_isoformat clk;
          new_comment = \<lparr>cmt_id = comment_id, cmt_record_id = record_id,
                         cmt_version_id = version_id, cmt_author_id = usr_id usr,
                         cmt_author_name = usr_display_name usr,
                         cmt_role = usr_role usr, cmt_text = text_body,
                         cmt_created_at = now\<rparr>
      in commit_or_rollback d
           (case insert_comment new_comment d of
              Inl e \<Rightarrow> Inl e
            | Inr d1 \<Rightarrow> Inr (d1, new_comment)))"

definition list_comments_for_record :: "db \<Rightarrow> ident \<Rightarrow> comment list" where
  "list_comments_for_record d record_id =
     sort_key cmt_created_at (filter (\<lambda>c. cmt_record_id c = record_id) (comments d))"

definition update_comment :: "db \<Rightarrow> clock \<Rightarrow> ident \<Rightarrow> string \<Rightarrow> db" where
  "update_comment d clk comment_id new_text =
     (let now = now_toronto_iso clk
      in d\<lparr>comments :=
             map (\<lambda>c. if cmt_id c = comment_id
                       then c\<lparr>cmt_text := new_text, cmt_created_at := now\<rparr>
                       else c) (comments d)\<rparr>)"

definition delete_comment :: "db \<Rightarrow> ident \<Rightarrow> db" where
  "delete_comment d comment_id =
     d\<lparr>comments := filter (\<lambda>c. cmt_id c \<noteq> comment_id) (comments d)\<rparr>"

subsection \<open>Override ledger\<close>

text \<open>
  The loop of \<^verbatim>\<open>log_override_events\<close>. \<open>uuid4 k\<close> is the identifier that the
  \<open>k\<close>-th call of \<^verbatim>\<open>uuid.uuid4()\<close> returns.
\<close>

fun insert_override_events ::
  "(nat \<Rightarrow> ident) \<Rightarrow> nat \<Rightarrow> ident \<Rightarrow> ident \<Rightarrow> user \<Rightarrow> iso_text \<Rightarrow> override list \<Rightarrow> db
   \<Rightarrow> error + db" where
  "insert_override_events uuid4 k record_id version_id usr now [] d = Inr d"
| "insert_override_events uuid4 k record_id version_id usr now
       ((field_path, original_value, new_value) # rest) d =
     (case insert_override_event
             \<lparr>ovr_id = uuid4 k, ovr_record_id = record_id, ovr_version_id = version_id,
              ovr_field_path = field_path, ovr_original_value = original_value,
              ovr_new_value = new_value, ovr_overridden_by = usr_id usr,
              ovr_overridden_by_name = usr_display_name usr,
              ovr_overridden_at = now\<rparr> d of
        Inl e \<Rightarrow> Inl e
      | Inr d1 \<Rightarrow>
          insert_override_events uuid4 (Suc k) record_id version_id usr now rest d1)"

definition log_override_events ::
  "db \<Rightarrow> clock \<Rightarrow> (nat \<Rightarrow> ident) \<Rightarrow> ident \<Rightarrow> ident \<Rightarrow> override list \<Rightarrow> user
   \<Rightarrow> db \<times> (error + unit)" where
  "log_override_events d clk uuid4 record_id version_id overrides usr =
     (if overrides = [] then (d, Inr ())
      else
        (let now = now_toronto_iso clk
         in commit_or_rollback d
              (case insert_override_events uuid4 0 record_id version_id usr now overrides d of
                 Inl e \<Rightarrow> Inl e
               | Inr d1 \<Rightarrow> Inr (d1, ()))))"

definition list_overrides_for_record :: "db \<Rightarrow> ident \<Rightarrow> override_event list" where
  "list_overrides_for_record d record_id =
     sort_key ovr_overridden_at
       (filter (\<lambda>e. ovr_record_id e = record_id) (override_events d))"

section \<open>Record service (app.py, show_editor: saving a new version)\<close>

text \<open>
  The values of the edit form as \<^verbatim>\<open>show_editor\<close> uses them: the title after
  \<^verbatim>\<open>title.strip()\<close>, the two text areas after \<^verbatim>\<open>strip()\<close>, and the two tag lists
  after splitting the comma-separated input.
\<close>

record edit_form =
  frm_title :: string
  frm_business_problem :: string
  frm_description :: string
  frm_framework_tags :: "string list"
  frm_capability_groups :: "string list"
  frm_status :: string

datatype editor_outcome =
    ViewerReadOnly
  | NoRecords
  | RecordNotFound
  | NoCurrentVersion
  | TitleRequired
  | Saved record_version

text \<open>
  The path of \<^verbatim>\<open>show_editor\<close> from its entry to the end of the
  \<^verbatim>\<open>if submitted_edit:\<close> block, for a press of "Save New Version" on the record
  \<open>selected_record_id\<close>. \<open>clk\<close> is the clock when the version is written and
  \<open>clk'\<close> the clock when the override events are written; \<open>uuid4 0\<close> becomes the
  version id and \<open>uuid4 1\<close>, \<open>uuid4 2\<close> the event ids.
\<close>

definition show_editor_save ::
  "db \<Rightarrow> clock \<Rightarrow> clock \<Rightarrow> (nat \<Rightarrow> ident) \<Rightarrow> user \<Rightarrow> ident \<Rightarrow> edit_form
   \<Rightarrow> db \<times> (error + editor_outcome)" where
  "show_editor_save d clk clk' uuid4 usr selected_record_id form =
     (if is_viewer usr then (d, Inr ViewerReadOnly)
      else if list_records_for_user d usr = [] then (d, Inr NoRecords)
      else
        (case get_record_by_id d selected_record_id of
           None \<Rightarrow> (d, Inr RecordNotFound)
         | Some record \<Rightarrow>
             (case get_current_version d (rec_id record) of
                None \<Rightarrow> (d, Inr NoCurrentVersion)
              | Some current_version \<Rightarrow>
                  (let existing_meta =
                         or_empty_dict (cnt_ai_metadata (ver_content current_version))
                   in if existing_meta ''framework_tags'' = Some MNull
                         \<or> existing_meta ''capability_groups'' = Some MNull
                      then (d, Inl TypeError)
                      else if frm_title form = [] then (d, Inr TitleRequired)
                      else
                        (let new_meta =
                               [''framework_tags'' \<mapsto> MList (frm_framework_tags form),
                                ''capability_groups'' \<mapsto> MList (frm_capability_groups form)];
                             updated_content =
                               \<lparr>cnt_business_problem = frm_business_problem form,
                                cnt_description = frm_description form,
                                cnt_ai_metadata = Some new_meta\<rparr>;
                             overrides = diff_ai_metadata (Some existing_meta) (Some new_meta);
                             version_type =
                               (if is_admin usr \<and> overrides \<noteq> [] then ''override''
                                else ''edit'')
                         in case create_new_version d clk (uuid4 0) (rec_id record)
                                   (frm_title form) updated_content usr version_type
                                   (Some (frm_status form)) of
                              (d1, Inl e) \<Rightarrow> (d1, Inl e)
                            | (d1, Inr new_version) \<Rightarrow>
                                if version_type = ''override''
                                then
                                  (case log_override_events d1 clk' (\<lambda>k. uuid4 (Suc k))
                                          (rec_id record) (ver_id new_version) overrides usr of
                                     (d2, Inl e) \<Rightarrow> (d2, Inl e)
                                   | (d2, Inr u) \<Rightarrow> (d2, Inr (Saved new_version)))
                                else (d1, Inr (Saved new_version)))))))"

section \<open>Histories of repository calls\<close>

text \<open>
  A call of one of the mutating operations of the repository, with the clock and the
  identifiers that the call draws. \<open>run\<close> applies a sequence of calls to the empty
  store; a call that raises leaves the store as it was.
\<close>

datatype command =
    CreateRecord clock ident ident string string content user string
  | NewVersion clock ident ident string content user string "string option"
  | AddComment clock ident ident "ident option" string user
  | UpdateComment clock ident string
  | DeleteComment ident
  | LogOverrides clock "nat \<Rightarrow> ident" ident ident "override list" user

fun exec :: "command \<Rightarrow> db \<Rightarrow> db" where
  "exec (CreateRecord clk rid vid title rtype c u st) d =
     fst (create_record_with_initial_version d clk rid vid title rtype c u st)"
| "exec (NewVersion clk vid rid title c u vt st) d =
     fst (create_new_version d clk vid rid title c u vt st)"
| "exec (AddComment clk cid rid vid txt u) d = fst (add_comment d clk cid rid vid txt u)"
| "exec (UpdateComment clk cid txt) d = update_comment d clk cid txt"
| "exec (DeleteComment cid) d = delete_comment d cid"
| "exec (LogOverrides clk uuid4 rid vid ovs u) d =
     fst (log_override_events d clk uuid4 rid vid ovs u)"

definition run :: "command list \<Rightarrow> db" where
  "run cmds = fold exec cmds init_db"

section \<open>Auxiliary notions for the statements\<close>

text \<open>
  The version number that \<^verbatim>\<open>create_new_version\<close> computes for a record:
  \<^verbatim>\<open>COALESCE(MAX(version_number), 0)\<close>, then \<^verbatim>\<open>(row["max_v"] or 0) + 1\<close>.
\<close>

definition next_version_number :: "db \<Rightarrow> ident \<Rightarrow> int" where
  "next_version_number d rid =
     (case sql_max (map ver_version_number (versions_of d rid)) of
        None \<Rightarrow> 0
      | Some m \<Rightarrow> m) + 1"

text \<open>
  The invariant of the stores that the repository builds: every version belongs to a
  stored record, the versions of a record carry the numbers \<open>1, 2, \<dots>\<close> in the order
  of their insertion, and every record has a version.
\<close>

definition store_inv :: "db \<Rightarrow> bool" where
  "store_inv d \<longleftrightarrow>
     (\<forall>v \<in> set (record_versions d). ver_record_id v \<in> set (map rec_id (records d)))
     \<and> (\<forall>rid. map ver_version_number (versions_of d rid)
               = [1..int (length (versions_of d rid))])
     \<and> (\<forall>r \<in> set (records d). versions_of d (rec_id r) \<noteq> [])"


text \<open>The rows that the loop of \<^verbatim>\<open>log_override_events\<close> writes when no insert fails.\<close>

fun override_rows ::
  "(nat \<Rightarrow> ident) \<Rightarrow> nat \<Rightarrow> ident \<Rightarrow> ident \<Rightarrow> user \<Rightarrow> iso_text \<Rightarrow> override list
   \<Rightarrow> override_event list" where
  "override_rows uuid4 k record_id version_id usr now [] = []"
| "override_rows uuid4 k record_id version_id usr now
       ((field_path, original_value, new_value) # rest) =
     \<lparr>ovr_id = uuid4 k, ovr_record_id = record_id, ovr_version_id = version_id,
      ovr_field_path = field_path, ovr_original_value = original_value,
      ovr_new_value = new_value, ovr_overridden_by = usr_id usr,
      ovr_overridden_by_name = usr_display_name usr,
      ovr_overridden_at = now\<rparr>
     # override_rows uuid4 (Suc k) record_id version_id usr now rest"

text \<open>The triple that an override event records.\<close>

definition override_of :: "override_event \<Rightarrow> override" where
  "override_of e = (ovr_field_path e, ovr_original_value e, ovr_new_value e)"

text \<open>The tracked fields whose values differ between two metadata documents.\<close>

definition changed_fields :: "meta option \<Rightarrow> meta option \<Rightarrow> string list" where
  "changed_fields old_meta new_meta =
     filter (\<lambda>k. get_or_empty (or_empty_dict old_meta) k
                  \<noteq> get_or_empty (or_empty_dict new_meta) k)
       [''framework_tags'', ''capability_groups'']"

text \<open>The \<^verbatim>\<open>ai_metadata\<close> and the content document that the editor builds from a form.\<close>

definition form_meta :: "edit_form \<Rightarrow> meta" where
  "form_meta form = [''framework_tags'' \<mapsto> MList (frm_framework_tags form),
                     ''capability_groups'' \<mapsto> MList (frm_capability_groups form)]"

definition form_content :: "edit_form \<Rightarrow> content" where
  "form_content form = \<lparr>cnt_business_problem = frm_business_problem form,
                         cnt_description = frm_description form,
                         cnt_ai_metadata = Some (form_meta form)\<rparr>"

section \<open>Example data\<close>

text \<open>The users of \<^verbatim>\<open>get_mock_users\<close> (core/auth.py), and one with an undocumented role.\<close>

definition mock_user :: user where
  "mock_user = \<lparr>usr_id = ''user-1'', usr_display_name = ''Akshat (User)'',
                 usr_email = ''akshat.user@example.com'', usr_role = ''user''\<rparr>"

definition mock_admin :: user where
  "mock_admin = \<lparr>usr_id = ''user-2'', usr_display_name = ''OPS Admin'',
                  usr_email = ''admin@example.com'', usr_role = ''admin''\<rparr>"

definition mock_viewer :: user where
  "mock_viewer = \<lparr>usr_id = ''user-3'', usr_display_name = ''OPS Viewer (Read-only)'',
                   usr_email = ''viewer@example.com'', usr_role = ''viewer''\<rparr>"

definition get_mock_users :: "user list" where
  "get_mock_users = [mock_user, mock_admin, mock_viewer]"

definition guest_user :: user where
  "guest_user = \<lparr>usr_id = ''user-9'', usr_display_name = ''Guest'',
                  usr_email = ''guest@example.com'', usr_role = ''guest''\<rparr>"

text \<open>A winter day in Toronto: the offset is five hours behind UTC.\<close>

definition clock_at :: "string \<Rightarrow> string \<Rightarrow> clock" where
  "clock_at toronto_hms utc_hms =
     \<lparr>toronto_wall = ''2025-01-15T'' @ toronto_hms, toronto_offset = ''-05:00'',
      utc_wall = ''2025-01-15T'' @ utc_hms\<rparr>"

definition demo_content_1 :: content where
  "demo_content_1 =
     \<lparr>cnt_business_problem = ''Detect suspicious benefit claims using AI.'',
      cnt_description = ''Use classification models to flag high-risk claims for review.'',
      cnt_ai_metadata = Some [''framework_tags'' \<mapsto> MList [''Risk & Governance''],
                              ''capability_groups'' \<mapsto> MList [''Fraud Detection'']]\<rparr>"

text \<open>
  Three records: a draft and a submitted one of the plain user, and a submitted one
  of the administrator.
\<close>

definition demo_cmds :: "command list" where
  "demo_cmds =
     [CreateRecord (clock_at ''09:00:00'' ''14:00:00'') ''rec-1'' ''ver-1''
        ''Fraud Detection in Benefit Claims'' ''ai_use_case'' demo_content_1 mock_user
        ''draft'',
      CreateRecord (clock_at ''10:00:00'' ''15:00:00'') ''rec-2'' ''ver-2''
        ''Claims Triage'' ''ai_use_case'' demo_content_1 mock_user ''submitted'',
      CreateRecord (clock_at ''11:00:00'' ''16:00:00'') ''rec-3'' ''ver-3''
        ''Policy Document Summarization'' ''ai_use_case'' demo_content_1 mock_admin
        ''submitted'']"

definition demo_record ::
  "ident \<Rightarrow> ident \<Rightarrow> string \<Rightarrow> user \<Rightarrow> string \<Rightarrow> string \<Rightarrow> record_row" where
  "demo_record rid vid title u hms st =
     \<lparr>rec_id = rid, rec_title = title, rec_record_type = ''ai_use_case'',
      rec_current_version_id = Some vid, rec_created_by = usr_id u,
      rec_created_at = ''2025-01-15T'' @ hms @ ''-05:00'', rec_status = st\<rparr>"

definition demo_version :: "ident \<Rightarrow> ident \<Rightarrow> user \<Rightarrow> string \<Rightarrow> record_version" where
  "demo_version vid rid u hms =
     \<lparr>ver_id = vid, ver_record_id = rid, ver_version_number = 1,
      ver_content = demo_content_1, ver_created_by = usr_id u,
      ver_created_by_name = usr_display_name u,
      ver_created_at = ''2025-01-15T'' @ hms @ ''-05:00'', ver_version_type = ''draft'',
      ver_parent_version_id = None\<rparr>"

definition demo_db :: db where
  "demo_db =
     \<lparr>records =
        [demo_record ''rec-1'' ''ver-1'' ''Fraud Detection in Benefit Claims'' mock_user
           ''09:00:00'' ''draft'',
         demo_record ''rec-2'' ''ver-2'' ''Claims Triage'' mock_user ''10:00:00''
           ''submitted'',
         demo_record ''rec-3'' ''ver-3'' ''Policy Document Summarization'' mock_admin
           ''11:00:00'' ''submitted''],
      record_versions =
        [demo_version ''ver-1'' ''rec-1'' mock_user ''09:00:00'',
         demo_version ''ver-2'' ''rec-2'' mock_user ''10:00:00'',
         demo_version ''ver-3'' ''rec-3'' mock_admin ''11:00:00''],
      comments = [], override_events = []\<rparr>"

text \<open>
  An edit of the example content that adds a capability group, and the identifiers
  that the next calls of \<^verbatim>\<open>uuid.uuid4()\<close> return.
\<close>

definition demo_form :: edit_form where
  "demo_form =
     \<lparr>frm_title = ''Claims Triage v2'',
      frm_business_problem = ''Detect suspicious benefit claims using AI.'',
      frm_description = ''Use classification models to flag high-risk claims for review.'',
      frm_framework_tags = [''Risk & Governance''],
      frm_capability_groups = [''Fraud Detection'', ''NLP''],
      frm_status = ''submitted''\<rparr>"

definition demo_uuid4 :: "nat \<Rightarrow> ident" where
  "demo_uuid4 k = (if k = 0 then ''ver-4'' else if k = 1 then ''evt-1'' else ''evt-2'')"




section \<open>Basic facts\<close>

lemma find_Some_mem: "find P xs = Some x \<Longrightarrow> x \<in> set xs \<and> P x"
  by (induction xs) (auto split: if_splits)

lemma find_append_fresh:
  assumes "k \<notin> set (map f xs)" and "f x = k"
  shows "find (\<lambda>y. f y = k) (xs @ [x]) = Some x"
  using assms by (induction xs) auto

lemma find_updated_record:
  assumes "find (\<lambda>r. rec_id r = rid) rs = Some r"
  shows "find (\<lambda>r. rec_id r = rid)
           (map (\<lambda>r. if rec_id r = rid
                      then r\<lparr>rec_current_version_id := Some vid, rec_status := s,
                             rec_title := t\<rparr>
                      else r) rs)
         = Some (r\<lparr>rec_current_version_id := Some vid, rec_status := s, rec_title := t\<rparr>)"
  using assms by (induction rs) (auto split: if_splits)

lemma sql_max_Max: "xs \<noteq> [] \<Longrightarrow> sql_max xs = Some (Max (set xs))"
proof (cases xs)
  case Nil
  assume "xs \<noteq> []"
  with Nil show ?thesis by simp
next
  case (Cons a list)
  have "fold max list a = Max (set (a # list))" by (rule Max.set_eq_fold [symmetric])
  then show ?thesis using Cons by simp
qed

lemma Max_upto: "n \<noteq> 0 \<Longrightarrow> Max (set [1..int n]) = int n"
  by (simp add: Max_eq_iff)

lemma sql_max_upto: "sql_max [1..int n] = (if n = 0 then None else Some (int n))"
proof (cases "n = 0")
  case True
  then show ?thesis by simp
next
  case False
  then have ne: "[1..int n] \<noteq> []" by simp
  show ?thesis using False sql_max_Max [OF ne] Max_upto [OF False] by simp
qed

lemma upto_snoc: "[1..int n] @ [int n + 1] = [1..int (Suc n)]"
  using upto_rec2 [of 1 "int n + 1"] by (simp add: add.commute)

subsection \<open>Ordering of the record list\<close>

lemma mset_order_by_created_at_desc: "mset (order_by_created_at_desc rows) = mset rows"
  by (simp add: order_by_created_at_desc_def)


lemma order_by_created_at_desc_ties:
  "filter (\<lambda>r. rec_created_at r = k) (order_by_created_at_desc rows)
   = filter (\<lambda>r. rec_created_at r = k) rows"
proof -
  have "filter (\<lambda>r. rec_created_at r = k) (sort_key rec_created_at (rev rows))
        = filter (\<lambda>r. rec_created_at r = k) (rev rows)"
    by (rule sort_key_stable)
  then show ?thesis
    unfolding order_by_created_at_desc_def by (simp add: rev_filter [symmetric])
qed




subsection \<open>The diff engine\<close>

lemma get_or_empty_missing:
  "get_or_empty (m(k := None)) k' = get_or_empty (m(k \<mapsto> MList [])) k'"
  by (simp add: get_or_empty_def)

lemma diff_or_empty_dict: "diff_ai_metadata (Some (or_empty_dict a)) b = diff_ai_metadata a b"
  by (simp add: diff_ai_metadata_def or_empty_dict_def split: option.splits)

lemma length_diff_ai_metadata:
  "length (diff_ai_metadata a b) = length (changed_fields a b)"
  by (simp add: diff_ai_metadata_def changed_fields_def Let_def)

subsection \<open>A successful \<open>create_new_version\<close>\<close>

lemma create_new_version_success:
  assumes "create_new_version d clk vid rid t c u vt st = (d', Inr v)"
  shows "\<exists>r. find (\<lambda>r. rec_id r = rid) (records d) = Some r
           \<and> vid \<notin> set (map ver_id (record_versions d))
           \<and> v = \<lparr>ver_id = vid, ver_record_id = rid,
                   ver_version_number = next_version_number d rid,
                   ver_content = c, ver_created_by = usr_id u,
                   ver_created_by_name = usr_display_name u,
                   ver_created_at = now_toronto_iso clk, ver_version_type = vt,
                   ver_parent_version_id = rec_current_version_id r\<rparr>
           \<and> d' = update_record vid (case st of None \<Rightarrow> rec_status r | Some s \<Rightarrow> s) t rid
                    (d\<lparr>record_versions := record_versions d @ [v]\<rparr>)"
  using assms
  by (auto simp add: create_new_version_def commit_or_rollback_def Let_def
      insert_record_version_def next_version_number_def
      split: option.splits sum.splits if_splits)

lemma create_new_version_failure:
  assumes "snd (create_new_version d clk vid rid t c u vt st) = Inl e"
  shows "fst (create_new_version d clk vid rid t c u vt st) = d"
  using assms
  by (auto simp add: create_new_version_def commit_or_rollback_def Let_def
      split: option.splits sum.splits)

lemma create_new_version_pointer:
  assumes "create_new_version d clk vid rid t c u vt st = (d', Inr v)"
  shows "\<exists>r. find (\<lambda>r. rec_id r = rid) (records d) = Some r
           \<and> find (\<lambda>r. rec_id r = rid) (records d')
               = Some (r\<lparr>rec_current_version_id := Some vid,
                         rec_status := (case st of None \<Rightarrow> rec_status r | Some s \<Rightarrow> s),
                         rec_title := t\<rparr>)
           \<and> ver_id v = vid
           \<and> ver_parent_version_id v = rec_current_version_id r
           \<and> get_current_version d' rid = Some v"
proof -
  from create_new_version_success [OF assms] obtain r :: record_row where
    r: "find (\<lambda>r. rec_id r = rid) (records d) = Some r" and
    fresh: "vid \<notin> set (map ver_id (record_versions d))" and
    v: "ver_id v = vid" "ver_parent_version_id v = rec_current_version_id r" and
    d': "d' = update_record vid (case st of None \<Rightarrow> rec_status r | Some s \<Rightarrow> s) t rid
                    (d\<lparr>record_versions := record_versions d @ [v]\<rparr>)"
    by auto
  let ?s = "case st of None \<Rightarrow> rec_status r | Some s \<Rightarrow> s"
  let ?r' = "r\<lparr>rec_current_version_id := Some vid, rec_status := ?s, rec_title := t\<rparr>"
  have rec': "find (\<lambda>r. rec_id r = rid) (records d') = Some ?r'"
    using find_updated_record [OF r] by (simp add: d' update_record_def)
  have vers: "record_versions d' = record_versions d @ [v]"
    by (simp add: d' update_record_def)
  have "find (\<lambda>x. ver_id x = vid) (record_versions d') = Some v"
    using find_append_fresh [of vid ver_id "record_versions d" v] fresh v(1) vers by simp
  then have "get_current_version d' rid = Some v"
    by (simp add: get_current_version_def rec')
  then show ?thesis using r rec' v by simp
qed

subsection \<open>The override ledger\<close>

lemma insert_override_events_rows:
  assumes "insert_override_events uuid4 k rid vid u now ovs d = Inr d1"
  shows "d1 = d\<lparr>override_events :=
                  override_events d @ override_rows uuid4 k rid vid u now ovs\<rparr>"
  using assms
proof (induction ovs arbitrary: k d)
  case Nil
  then show ?case by simp
next
  case (Cons ov rest)
  obtain fp old new where ov: "ov = (fp, old, new)" by (cases ov) auto
  from Cons.prems show ?case
    unfolding ov
    by (auto simp add: insert_override_event_def split: if_splits sum.splits
        dest!: Cons.IH)
qed

lemma override_rows_props:
  "map override_of (override_rows uuid4 k rid vid u now ovs) = ovs
   \<and> (\<forall>e \<in> set (override_rows uuid4 k rid vid u now ovs).
        ovr_record_id e = rid \<and> ovr_version_id e = vid \<and> ovr_overridden_by e = usr_id u
        \<and> ovr_overridden_by_name e = usr_display_name u \<and> ovr_overridden_at e = now)"
  by (induction uuid4 k rid vid u now ovs rule: override_rows.induct)
     (simp_all add: override_of_def)

lemma log_override_events_success:
  assumes "log_override_events d clk uuid4 rid vid ovs u = (d', Inr x)"
  shows "d' = d\<lparr>override_events :=
                  override_events d
                  @ override_rows uuid4 0 rid vid u (now_toronto_iso clk) ovs\<rparr>"
  using assms
  by (auto simp add: log_override_events_def commit_or_rollback_def Let_def
      split: sum.splits if_splits dest!: insert_override_events_rows)

lemma log_override_events_frame:
  "records (fst (log_override_events d clk uuid4 rid vid ovs u)) = records d
   \<and> record_versions (fst (log_override_events d clk uuid4 rid vid ovs u))
       = record_versions d
   \<and> comments (fst (log_override_events d clk uuid4 rid vid ovs u)) = comments d"
  by (auto simp add: log_override_events_def commit_or_rollback_def Let_def
      split: sum.splits dest!: insert_override_events_rows)

subsection \<open>The editor\<close>

lemma show_editor_save_Saved:
  assumes "show_editor_save d clk clk' uuid4 u rid form = (d', Inr (Saved v))"
  shows "\<exists>cur d1 vt.
           get_current_version d rid = Some cur
         \<and> vt = (if is_admin u
                      \<and> diff_ai_metadata (cnt_ai_metadata (ver_content cur))
                           (Some (form_meta form)) \<noteq> []
                  then ''override'' else ''edit'')
         \<and> create_new_version d clk (uuid4 0) rid (frm_title form) (form_content form) u vt
              (Some (frm_status form)) = (d1, Inr v)
         \<and> (if vt = ''override''
            then log_override_events d1 clk' (\<lambda>k. uuid4 (Suc k)) rid (ver_id v)
                   (diff_ai_metadata (cnt_ai_metadata (ver_content cur))
                      (Some (form_meta form))) u
                 = (d', Inr ())
            else d' = d1)"
proof -
  from assms obtain rrow where rec: "get_record_by_id d rid = Some rrow"
    by (auto simp add: show_editor_save_def split: if_splits option.splits)
  then have rid: "rec_id rrow = rid"
    using find_Some_mem [of "\<lambda>r. rec_id r = rid" "records d" rrow]
    by (simp add: get_record_by_id_def)
  from assms rec rid obtain cur where cur: "get_current_version d rid = Some cur"
    by (auto simp add: show_editor_save_def split: if_splits option.splits)
  show ?thesis
    using assms rec rid cur
    by (auto simp add: show_editor_save_def Let_def diff_or_empty_dict form_meta_def
        form_content_def split: if_splits sum.splits prod.splits)
qed

subsection \<open>The store invariant\<close>

lemma next_version_number_inv:
  assumes "store_inv d"
  shows "next_version_number d rid = int (length (versions_of d rid)) + 1"
proof -
  have "map ver_version_number (versions_of d rid) = [1..int (length (versions_of d rid))]"
    using assms by (simp add: store_inv_def)
  then show ?thesis
    by (simp add: next_version_number_def sql_max_upto)
qed

lemma store_inv_init: "store_inv init_db"
  by (simp add: store_inv_def init_db_def versions_of_def)

lemma versions_of_same:
  "record_versions d' = record_versions d \<Longrightarrow> versions_of d' rid = versions_of d rid"
  by (simp add: versions_of_def)

lemma versions_of_snoc:
  "record_versions d' = record_versions d @ [v] \<Longrightarrow>
   versions_of d' rid = versions_of d rid @ (if ver_record_id v = rid then [v] else [])"
  by (simp add: versions_of_def)

lemma store_inv_nonempty:
  assumes "store_inv d" and "k \<in> set (map rec_id (records d))"
  shows "versions_of d k \<noteq> []"
proof -
  from assms(2) obtain r where "r \<in> set (records d)" "rec_id r = k" by auto
  then show ?thesis using assms(1) by (auto simp add: store_inv_def)
qed

lemma store_inv_cong:
  assumes inv: "store_inv d"
    and ids: "set (map rec_id (records d')) = set (map rec_id (records d))"
    and vers: "record_versions d' = record_versions d"
  shows "store_inv d'"
proof -
  have a: "\<forall>v \<in> set (record_versions d'). ver_record_id v \<in> set (map rec_id (records d'))"
    using inv unfolding ids vers by (simp add: store_inv_def)
  have b: "\<forall>rid. map ver_version_number (versions_of d' rid)
               = [1..int (length (versions_of d' rid))]"
    using inv unfolding versions_of_same [OF vers] by (simp add: store_inv_def)
  have c: "\<forall>r \<in> set (records d'). versions_of d' (rec_id r) \<noteq> []"
  proof
    fix r assume "r \<in> set (records d')"
    then have "rec_id r \<in> set (map rec_id (records d))" using ids by auto
    then show "versions_of d' (rec_id r) \<noteq> []"
      using store_inv_nonempty [OF inv] versions_of_same [OF vers] by simp
  qed
  show ?thesis unfolding store_inv_def using a b c by blast
qed

lemma store_inv_append:
  assumes inv: "store_inv d"
    and ids: "set (map rec_id (records d'))
              = insert (ver_record_id v) (set (map rec_id (records d)))"
    and vers: "record_versions d' = record_versions d @ [v]"
    and num: "ver_version_number v = int (length (versions_of d (ver_record_id v))) + 1"
  shows "store_inv d'"
proof -
  note vo = versions_of_snoc [OF vers]
  have a: "\<forall>x \<in> set (record_versions d'). ver_record_id x \<in> set (map rec_id (records d'))"
    using inv unfolding ids vers by (auto simp add: store_inv_def)
  have b: "map ver_version_number (versions_of d' k) = [1..int (length (versions_of d' k))]"
    for k
  proof (cases "ver_record_id v = k")
    case True
    have "map ver_version_number (versions_of d k) = [1..int (length (versions_of d k))]"
      using inv by (simp add: store_inv_def)
    then show ?thesis
      using True num upto_snoc [of "length (versions_of d k)"] by (simp add: vo)
  next
    case False
    then show ?thesis using inv by (simp add: vo store_inv_def)
  qed
  have c: "\<forall>r \<in> set (records d'). versions_of d' (rec_id r) \<noteq> []"
  proof
    fix r assume "r \<in> set (records d')"
    then have mem: "rec_id r \<in> insert (ver_record_id v) (set (map rec_id (records d)))"
      using ids by auto
    show "versions_of d' (rec_id r) \<noteq> []"
    proof (cases "rec_id r = ver_record_id v")
      case True
      then show ?thesis by (simp add: vo)
    next
      case False
      then have "rec_id r \<in> set (map rec_id (records d))" using mem by simp
      then have "versions_of d (rec_id r) \<noteq> []" by (rule store_inv_nonempty [OF inv])
      then show ?thesis by (simp add: vo)
    qed
  qed
  show ?thesis unfolding store_inv_def using a b c by blast
qed

lemma store_inv_create_new_version:
  assumes "store_inv d"
  shows "store_inv (fst (create_new_version d clk vid rid t c u vt st))"
proof (cases "snd (create_new_version d clk vid rid t c u vt st)")
  case (Inl e)
  then show ?thesis using assms create_new_version_failure by simp
next
  case (Inr v)
  then have eq: "create_new_version d clk vid rid t c u vt st
                 = (fst (create_new_version d clk vid rid t c u vt st), Inr v)"
    by (metis prod.collapse)
  from create_new_version_success [OF eq] obtain r :: record_row where
    r: "find (\<lambda>r. rec_id r = rid) (records d) = Some r" and
    v: "ver_record_id v = rid" "ver_version_number v = next_version_number d rid" and
    d': "fst (create_new_version d clk vid rid t c u vt st)
         = update_record vid (case st of None \<Rightarrow> rec_status r | Some s \<Rightarrow> s) t rid
                    (d\<lparr>record_versions := record_versions d @ [v]\<rparr>)"
    by auto
  have mem: "rid \<in> set (map rec_id (records d))"
    using find_Some_mem [OF r] by auto
  have ids: "map rec_id (records (fst (create_new_version d clk vid rid t c u vt st)))
             = map rec_id (records d)"
    unfolding d' by (simp add: update_record_def comp_def)
  show ?thesis
  proof (rule store_inv_append [OF assms, where v = v])
    show "set (map rec_id (records (fst (create_new_version d clk vid rid t c u vt st))))
          = insert (ver_record_id v) (set (map rec_id (records d)))"
      unfolding ids using mem v by auto
    show "record_versions (fst (create_new_version d clk vid rid t c u vt st))
          = record_versions d @ [v]"
      unfolding d' by (simp add: update_record_def)
    show "ver_version_number v = int (length (versions_of d (ver_record_id v))) + 1"
      using v next_version_number_inv [OF assms, of rid] by simp
  qed
qed

lemma store_inv_create_record:
  assumes "store_inv d"
  shows "store_inv (fst (create_record_with_initial_version d clk rid vid title rtype c u st))"
proof (cases "rid \<in> set (map rec_id (records d))
              \<or> vid \<in> set (map ver_id (record_versions d))")
  case True
  then have "fst (create_record_with_initial_version d clk rid vid title rtype c u st) = d"
    by (auto simp add: create_record_with_initial_version_def commit_or_rollback_def
          insert_record_def insert_record_version_def Let_def)
  then show ?thesis using assms by simp
next
  case False
  let ?now = "now_toronto_iso clk"
  let ?r = "\<lparr>rec_id = rid, rec_title = title, rec_record_type = rtype,
             rec_current_version_id = Some vid, rec_created_by = usr_id u,
             rec_created_at = ?now, rec_status = st\<rparr>"
  let ?v = "\<lparr>ver_id = vid, ver_record_id = rid, ver_version_number = 1,
             ver_content = c, ver_created_by = usr_id u,
             ver_created_by_name = usr_display_name u, ver_created_at = ?now,
             ver_version_type = ''draft'', ver_parent_version_id = None\<rparr>"
  from False have res:
    "fst (create_record_with_initial_version d clk rid vid title rtype c u st)
     = d\<lparr>records := records d @ [?r], record_versions := record_versions d @ [?v]\<rparr>"
    by (simp add: create_record_with_initial_version_def commit_or_rollback_def
          insert_record_def insert_record_version_def Let_def)
  have none: "versions_of d rid = []"
    using assms False by (auto simp add: store_inv_def versions_of_def filter_empty_conv)
  show ?thesis
    unfolding res
    by (rule store_inv_append [OF assms, where v = ?v]) (simp_all add: none)
qed

lemma store_inv_exec:
  assumes "store_inv d"
  shows "store_inv (exec cmd d)"
proof (cases cmd)
  case (CreateRecord clk rid vid title rtype c u st)
  then show ?thesis using store_inv_create_record [OF assms] by simp
next
  case (NewVersion clk vid rid title c u vt st)
  then show ?thesis using store_inv_create_new_version [OF assms] by simp
next
  case (AddComment clk cid rid vid body u)
  have "store_inv (fst (add_comment d clk cid rid vid body u))"
    by (rule store_inv_cong [OF assms])
       (simp_all add: add_comment_def commit_or_rollback_def insert_comment_def Let_def)
  then show ?thesis using AddComment by simp
next
  case (UpdateComment clk cid body)
  have "store_inv (update_comment d clk cid body)"
    by (rule store_inv_cong [OF assms]) (simp_all add: update_comment_def Let_def)
  then show ?thesis using UpdateComment by simp
next
  case (DeleteComment cid)
  have "store_inv (delete_comment d cid)"
    by (rule store_inv_cong [OF assms]) (simp_all add: delete_comment_def)
  then show ?thesis using DeleteComment by simp
next
  case (LogOverrides clk uuid4 rid vid ovs u)
  have "store_inv (fst (log_override_events d clk uuid4 rid vid ovs u))"
    by (rule store_inv_cong [OF assms]) (simp_all add: log_override_events_frame)
  then show ?thesis using LogOverrides by simp
qed

lemma store_inv_fold: "store_inv d \<Longrightarrow> store_inv (fold exec cmds d)"
  by (induction cmds arbitrary: d) (simp_all add: store_inv_exec)

lemma store_inv_run: "store_inv (run cmds)"
  by (simp add: run_def store_inv_fold store_inv_init)

lemma list_versions_in_insertion_order:
  assumes "store_inv d"
  shows "list_versions_for_record d k = versions_of d k"
proof -
  have "map ver_version_number (versions_of d k) = [1..int (length (versions_of d k))]"
    using assms by (simp add: store_inv_def)
  then have "sorted (map ver_version_number (versions_of d k))" by simp
  then show ?thesis
    unfolding list_versions_for_record_def by (rule sort_key_id_if_sorted)
qed

subsection \<open>The example store\<close>

lemma run_demo_cmds: "run demo_cmds = demo_db"
  by (simp add: run_def demo_cmds_def demo_db_def init_db_def
      create_record_with_initial_version_def commit_or_rollback_def insert_record_def
      insert_record_version_def now_toronto_iso_def clock_at_def demo_record_def
      demo_version_def Let_def)

section \<open>The claims\<close>

text \<open>
  C5. The diff engine is total: it returns a change list for every pair of metadata
  documents, an absent document counting as the empty dictionary and a missing key as
  the empty list. Diffing a document against itself gives the empty list, and diffing
  \<open>{framework_tags: [A]}\<close> against \<open>{framework_tags: [A, B]}\<close> gives the single triple
  \<open>(ai_metadata.framework_tags, [A], [A, B])\<close>.
\<close>

theorem diff_ai_metadata_self_and_example:
  "diff_ai_metadata m m = []
   \<and> diff_ai_metadata None n = diff_ai_metadata (Some Map.empty) n
   \<and> diff_ai_metadata n None = diff_ai_metadata n (Some Map.empty)
   \<and> diff_ai_metadata (Some (a(k := None))) n
       = diff_ai_metadata (Some (a(k \<mapsto> MList []))) n
   \<and> diff_ai_metadata n (Some (a(k := None)))
       = diff_ai_metadata n (Some (a(k \<mapsto> MList [])))
   \<and> diff_ai_metadata (Some [''framework_tags'' \<mapsto> MList [''A'']])
        (Some [''framework_tags'' \<mapsto> MList [''A'', ''B'']])
      = [(''ai_metadata.framework_tags'', [''A''], [''A'', ''B''])]"
proof (intro conjI)
  show "diff_ai_metadata m m = []" by (simp add: diff_ai_metadata_def)
  show "diff_ai_metadata None n = diff_ai_metadata (Some Map.empty) n"
    by (simp add: diff_ai_metadata_def or_empty_dict_def)
  show "diff_ai_metadata n None = diff_ai_metadata n (Some Map.empty)"
    by (simp add: diff_ai_metadata_def or_empty_dict_def)
  show "diff_ai_metadata (Some (a(k := None))) n
        = diff_ai_metadata (Some (a(k \<mapsto> MList []))) n"
    by (simp only: diff_ai_metadata_def or_empty_dict_def option.case
        get_or_empty_missing Let_def)
  show "diff_ai_metadata n (Some (a(k := None)))
        = diff_ai_metadata n (Some (a(k \<mapsto> MList [])))"
    by (simp only: diff_ai_metadata_def or_empty_dict_def option.case
        get_or_empty_missing Let_def)
  show "diff_ai_metadata (Some [''framework_tags'' \<mapsto> MList [''A'']])
        (Some [''framework_tags'' \<mapsto> MList [''A'', ''B'']])
      = [(''ai_metadata.framework_tags'', [''A''], [''A'', ''B''])]"
    by (simp add: diff_ai_metadata_def or_empty_dict_def get_or_empty_def)
qed

theorem diff_ai_metadata_self_and_example_witness:
  "diff_ai_metadata (cnt_ai_metadata demo_content_1) (cnt_ai_metadata demo_content_1) = []
   \<and> diff_ai_metadata None (cnt_ai_metadata demo_content_1)
       = [(''ai_metadata.framework_tags'', [], [''Risk & Governance'']),
          (''ai_metadata.capability_groups'', [], [''Fraud Detection''])]"
  using diff_ai_metadata_self_and_example
          [of "cnt_ai_metadata demo_content_1" "cnt_ai_metadata demo_content_1"]
  by (simp add: demo_content_1_def diff_ai_metadata_def or_empty_dict_def get_or_empty_def)





text \<open>
  C9. A user whose role is neither \<open>admin\<close> nor \<open>user\<close>, documented or not, gets the
  viewer's list: exactly the records whose status is not \<open>draft\<close>.
\<close>

theorem unknown_role_gets_viewer_list:
  assumes "usr_role u \<noteq> ''admin''" and "usr_role u \<noteq> ''user''"
  shows "list_records_for_user d u
         = order_by_created_at_desc (filter (\<lambda>r. rec_status r \<noteq> ''draft'') (records d))
       \<and> list_records_for_user d u = list_records_for_user d (u\<lparr>usr_role := ''viewer''\<rparr>)
       \<and> mset (list_records_for_user d u)
           = mset (filter (\<lambda>r. rec_status r \<noteq> ''draft'') (records d))"
  using assms
  by (simp add: list_records_for_user_def is_admin_def is_user_def ADMIN_def USER_def
      mset_order_by_created_at_desc)

theorem unknown_role_gets_viewer_list_witness:
  "usr_role guest_user \<noteq> ''admin'' \<and> usr_role guest_user \<noteq> ''user''
   \<and> usr_role guest_user \<noteq> ''viewer''
   \<and> list_records_for_user demo_db guest_user = list_records_for_user demo_db mock_viewer
   \<and> mset (list_records_for_user demo_db guest_user) = mset (drop 1 (records demo_db))"
proof -
  have a: "usr_role guest_user \<noteq> ''admin''" and b: "usr_role guest_user \<noteq> ''user''"
    and c: "usr_role guest_user \<noteq> ''viewer''"
    by (simp_all add: guest_user_def)
  have v: "list_records_for_user demo_db (guest_user\<lparr>usr_role := ''viewer''\<rparr>)
           = list_records_for_user demo_db mock_viewer"
    by (simp add: list_records_for_user_def is_admin_def is_user_def ADMIN_def USER_def
        mock_viewer_def guest_user_def)
  have fv: "filter (\<lambda>r. rec_status r \<noteq> ''draft'') (records demo_db)
            = drop 1 (records demo_db)"
    by (simp add: demo_db_def demo_record_def)
  note inst = unknown_role_gets_viewer_list [OF a b, of demo_db]
  have "list_records_for_user demo_db guest_user
        = list_records_for_user demo_db (guest_user\<lparr>usr_role := ''viewer''\<rparr>)"
    using inst by blast
  then have 1: "list_records_for_user demo_db guest_user
                = list_records_for_user demo_db mock_viewer"
    using v by (rule trans)
  have "mset (list_records_for_user demo_db guest_user)
        = mset (filter (\<lambda>r. rec_status r \<noteq> ''draft'') (records demo_db))"
    using inst by blast
  then have 2: "mset (list_records_for_user demo_db guest_user)
                = mset (drop 1 (records demo_db))"
    by (simp only: fv)
  show ?thesis using a b c 1 2 by blast
qed

text \<open>
  C6. When \<open>record_id\<close> is not the id of a stored record, \<open>create_new_version\<close> raises
  the not-found error and the store after the call is the store before it.
\<close>

theorem create_new_version_not_found:
  assumes "record_id \<notin> set (map rec_id (records d))"
  shows "create_new_version d clk version_id record_id new_title c u vt st
         = (d, Inl (ValueError record_id))"
proof -
  have "find (\<lambda>r. rec_id r = record_id) (records d) = None"
    using assms by (auto simp add: find_None_iff)
  then show ?thesis
    by (simp add: create_new_version_def commit_or_rollback_def)
qed

theorem create_new_version_not_found_witness:
  "''rec-9'' \<notin> set (map rec_id (records demo_db))
   \<and> create_new_version demo_db (clock_at ''12:00:00'' ''17:00:00'') ''ver-4'' ''rec-9''
        ''Claims Triage'' demo_content_1 mock_user ''edit'' None
      = (demo_db, Inl (ValueError ''rec-9''))"
proof -
  have h: "''rec-9'' \<notin> set (map rec_id (records demo_db))"
    by (simp add: demo_db_def demo_record_def)
  show ?thesis
    using h create_new_version_not_found [OF h] by simp
qed

text \<open>
  C3. After a successful \<open>create_new_version\<close> on a record, \<open>get_current_version\<close>
  returns the version just created, the record carries the title passed in and the
  status passed in (or its previous status when none was passed), and the parent of
  the new version is the record's current version id at the time of the call.
\<close>

theorem pointer_consistency:
  assumes "create_new_version d clk vid rid t c u vt st = (d', Inr v)"
  shows "get_current_version d' rid = Some v
       \<and> (\<exists>r r'. get_record_by_id d rid = Some r \<and> get_record_by_id d' rid = Some r'
            \<and> rec_title r' = t
            \<and> rec_status r' = (case st of None \<Rightarrow> rec_status r | Some s \<Rightarrow> s)
            \<and> rec_current_version_id r' = Some (ver_id v)
            \<and> ver_parent_version_id v = rec_current_version_id r)"
proof -
  from create_new_version_pointer [OF assms] obtain r :: record_row where
    r: "find (\<lambda>r. rec_id r = rid) (records d) = Some r" and
    r': "find (\<lambda>r. rec_id r = rid) (records d')
         = Some (r\<lparr>rec_current_version_id := Some vid,
                   rec_status := (case st of None \<Rightarrow> rec_status r | Some s \<Rightarrow> s),
                   rec_title := t\<rparr>)" and
    v: "ver_id v = vid" "ver_parent_version_id v = rec_current_version_id r" and
    cur: "get_current_version d' rid = Some v"
    by blast
  show ?thesis
    using r r' v cur by (simp add: get_record_by_id_def)
qed

theorem pointer_consistency_witness:
  "\<exists>d' v. create_new_version demo_db (clock_at ''12:00:00'' ''17:00:00'') ''ver-4'' ''rec-1''
             ''Fraud Detection v2'' demo_content_1 mock_user ''edit'' None = (d', Inr v)
         \<and> get_current_version d' ''rec-1'' = Some v
         \<and> ver_parent_version_id v = Some ''ver-1''
         \<and> (\<exists>r'. get_record_by_id d' ''rec-1'' = Some r'
                \<and> rec_title r' = ''Fraud Detection v2'' \<and> rec_status r' = ''draft'')"
proof -
  let ?call = "create_new_version demo_db (clock_at ''12:00:00'' ''17:00:00'') ''ver-4''
                 ''rec-1'' ''Fraud Detection v2'' demo_content_1 mock_user ''edit'' None"
  have "\<exists>v. snd ?call = Inr v"
    by (simp add: create_new_version_def commit_or_rollback_def insert_record_version_def
        versions_of_def demo_db_def demo_record_def demo_version_def Let_def)
  then obtain d' v where eq: "?call = (d', Inr v)" by (metis prod.collapse)
  have old: "get_record_by_id demo_db ''rec-1''
             = Some (demo_record ''rec-1'' ''ver-1'' ''Fraud Detection in Benefit Claims''
                       mock_user ''09:00:00'' ''draft'')"
    by (simp add: get_record_by_id_def demo_db_def demo_record_def)
  from pointer_consistency [OF eq] old
  have "get_current_version d' ''rec-1'' = Some v
        \<and> ver_parent_version_id v = Some ''ver-1''
        \<and> (\<exists>r'. get_record_by_id d' ''rec-1'' = Some r'
               \<and> rec_title r' = ''Fraud Detection v2'' \<and> rec_status r' = ''draft'')"
    by (auto simp add: demo_record_def)
  then show ?thesis using eq by blast
qed

text \<open>
  C10. A successful \<open>create_new_version\<close> changes only the current version id, the
  status and the title of the record it is called on: the id, record type, creator and
  creation time of every record are as before, every other record is as before, and
  the version table is the old one with the new version appended.
\<close>

theorem create_new_version_frame:
  assumes "create_new_version d clk vid rid t c u vt st = (d', Inr v)"
  shows "list_all2
           (\<lambda>r r'. rec_id r' = rec_id r \<and> rec_record_type r' = rec_record_type r
                  \<and> rec_created_by r' = rec_created_by r
                  \<and> rec_created_at r' = rec_created_at r
                  \<and> (rec_id r \<noteq> rid \<longrightarrow> r' = r))
           (records d) (records d')
       \<and> record_versions d' = record_versions d @ [v]
       \<and> comments d' = comments d
       \<and> override_events d' = override_events d"
proof -
  from create_new_version_success [OF assms] obtain r :: record_row where
    d': "d' = update_record vid (case st of None \<Rightarrow> rec_status r | Some s \<Rightarrow> s) t rid
                    (d\<lparr>record_versions := record_versions d @ [v]\<rparr>)"
    by blast
  have "list_all2
           (\<lambda>r r'. rec_id r' = rec_id r \<and> rec_record_type r' = rec_record_type r
                  \<and> rec_created_by r' = rec_created_by r
                  \<and> rec_created_at r' = rec_created_at r
                  \<and> (rec_id r \<noteq> rid \<longrightarrow> r' = r))
           (records d) (records d')"
    unfolding d' update_record_def by (simp add: list_all2_map2 list_all2_same)
  then show ?thesis
    by (simp add: d' update_record_def)
qed

theorem create_new_version_frame_witness:
  "\<exists>d' v. create_new_version demo_db (clock_at ''12:00:00'' ''17:00:00'') ''ver-4'' ''rec-1''
             ''Fraud Detection v2'' demo_content_1 mock_user ''edit'' (Some ''submitted'')
           = (d', Inr v)
         \<and> length (records d') = 3
         \<and> rec_created_at (records d' ! 0) = ''2025-01-15T09:00:00-05:00''
         \<and> records d' ! 1 = records demo_db ! 1
         \<and> records d' ! 2 = records demo_db ! 2
         \<and> record_versions d' = record_versions demo_db @ [v]
         \<and> comments d' = [] \<and> override_events d' = []"
proof -
  let ?call = "create_new_version demo_db (clock_at ''12:00:00'' ''17:00:00'') ''ver-4''
                 ''rec-1'' ''Fraud Detection v2'' demo_content_1 mock_user ''edit''
                 (Some ''submitted'')"
  have "\<exists>v. snd ?call = Inr v"
    by (simp add: create_new_version_def commit_or_rollback_def insert_record_version_def
        versions_of_def demo_db_def demo_record_def demo_version_def Let_def)
  then obtain d' v where eq: "?call = (d', Inr v)" by (metis prod.collapse)
  note fr = create_new_version_frame [OF eq]
  let ?R = "\<lambda>r r'. rec_id r' = rec_id r \<and> rec_record_type r' = rec_record_type r
                  \<and> rec_created_by r' = rec_created_by r
                  \<and> rec_created_at r' = rec_created_at r
                  \<and> (rec_id r \<noteq> ''rec-1'' \<longrightarrow> r' = r)"
  have la: "list_all2 ?R (records demo_db) (records d')" using fr by blast
  have len: "length (records demo_db) = 3" by (simp add: demo_db_def)
  then have len': "length (records d') = 3" using list_all2_lengthD [OF la] by simp
  have n0: "?R (records demo_db ! 0) (records d' ! 0)"
    using list_all2_nthD [OF la, of 0] len by simp
  have n1: "?R (records demo_db ! 1) (records d' ! 1)"
    using list_all2_nthD [OF la, of 1] len by simp
  have n2: "?R (records demo_db ! 2) (records d' ! 2)"
    using list_all2_nthD [OF la, of 2] len by simp
  have "rec_created_at (records d' ! 0) = ''2025-01-15T09:00:00-05:00''"
    using n0 by (simp add: demo_db_def demo_record_def)
  moreover have "records d' ! 1 = records demo_db ! 1"
    using n1 by (simp add: demo_db_def demo_record_def)
  moreover have "records d' ! 2 = records demo_db ! 2"
    using n2 by (simp add: demo_db_def demo_record_def)
  moreover have "record_versions d' = record_versions demo_db @ [v]
                 \<and> comments d' = [] \<and> override_events d' = []"
    using fr by (simp add: demo_db_def)
  ultimately show ?thesis using eq len' by blast
qed

text \<open>
  C7. \<open>create_record_with_initial_version\<close> writes both rows or none: when it raises,
  the store is unchanged; when it returns, the record row and one version row have
  been appended, the returned record points at that version, and the version has
  number 1, no parent and type \<open>draft\<close> whatever the status argument, which only
  sets the status of the record. The call returns exactly when both identifiers are
  new.
\<close>

theorem create_record_with_initial_version_atomic:
  "(case create_record_with_initial_version d clk rid vid title rtype c u st of
      (d', Inl e) \<Rightarrow> d' = d
    | (d', Inr r) \<Rightarrow>
        records d' = records d @ [r]
        \<and> (\<exists>v. record_versions d' = record_versions d @ [v]
              \<and> rec_current_version_id r = Some (ver_id v)
              \<and> get_current_version d' (rec_id r) = Some v
              \<and> ver_record_id v = rec_id r
              \<and> ver_version_number v = 1
              \<and> ver_parent_version_id v = None
              \<and> ver_version_type v = ''draft'')
        \<and> rec_status r = st
        \<and> comments d' = comments d
        \<and> override_events d' = override_events d)
   \<and> ((\<exists>d' r. create_record_with_initial_version d clk rid vid title rtype c u st
                = (d', Inr r))
      \<longleftrightarrow> rid \<notin> set (map rec_id (records d)) \<and> vid \<notin> set (map ver_id (record_versions d)))"
proof -
  let ?now = "now_toronto_iso clk"
  let ?r = "\<lparr>rec_id = rid, rec_title = title, rec_record_type = rtype,
             rec_current_version_id = Some vid, rec_created_by = usr_id u,
             rec_created_at = ?now, rec_status = st\<rparr>"
  let ?v = "\<lparr>ver_id = vid, ver_record_id = rid, ver_version_number = 1,
             ver_content = c, ver_created_by = usr_id u,
             ver_created_by_name = usr_display_name u, ver_created_at = ?now,
             ver_version_type = ''draft'', ver_parent_version_id = None\<rparr>"
  show ?thesis
  proof (cases "rid \<in> set (map rec_id (records d))
                \<or> vid \<in> set (map ver_id (record_versions d))")
    case True
    then show ?thesis
      by (auto simp add: create_record_with_initial_version_def commit_or_rollback_def
          insert_record_def insert_record_version_def Let_def)
  next
    case False
    then have res: "create_record_with_initial_version d clk rid vid title rtype c u st
        = (d\<lparr>records := records d @ [?r], record_versions := record_versions d @ [?v]\<rparr>,
           Inr ?r)"
      by (simp add: create_record_with_initial_version_def commit_or_rollback_def
          insert_record_def insert_record_version_def Let_def)
    have f1: "find (\<lambda>r. rec_id r = rid) (records d @ [?r]) = Some ?r"
      using find_append_fresh [of rid rec_id "records d" ?r] False by simp
    have f2: "find (\<lambda>x. ver_id x = vid) (record_versions d @ [?v]) = Some ?v"
      using find_append_fresh [of vid ver_id "record_versions d" ?v] False by simp
    show ?thesis
      unfolding res using False by (simp add: get_current_version_def f1 f2)
  qed
qed

theorem create_record_with_initial_version_atomic_witness:
  "fst (create_record_with_initial_version demo_db (clock_at ''12:00:00'' ''17:00:00'')
          ''rec-4'' ''ver-1'' ''Chat Assistant'' ''ai_use_case'' demo_content_1 mock_user
          ''submitted'') = demo_db
   \<and> (\<exists>d' r v. create_record_with_initial_version demo_db
                  (clock_at ''12:00:00'' ''17:00:00'') ''rec-4'' ''ver-4'' ''Chat Assistant''
                  ''ai_use_case'' demo_content_1 mock_user ''submitted'' = (d', Inr r)
              \<and> rec_status r = ''submitted''
              \<and> get_current_version d' (rec_id r) = Some v
              \<and> ver_version_number v = 1 \<and> ver_version_type v = ''draft''
              \<and> ver_parent_version_id v = None)"
proof -
  let ?bad = "create_record_with_initial_version demo_db (clock_at ''12:00:00'' ''17:00:00'')
          ''rec-4'' ''ver-1'' ''Chat Assistant'' ''ai_use_case'' demo_content_1 mock_user
          ''submitted''"
  let ?good = "create_record_with_initial_version demo_db (clock_at ''12:00:00'' ''17:00:00'')
          ''rec-4'' ''ver-4'' ''Chat Assistant'' ''ai_use_case'' demo_content_1 mock_user
          ''submitted''"
  have fresh: "''rec-4'' \<notin> set (map rec_id (records demo_db))
               \<and> ''ver-4'' \<notin> set (map ver_id (record_versions demo_db))"
    by (simp add: demo_db_def demo_record_def demo_version_def)
  have stale: "''ver-1'' \<in> set (map ver_id (record_versions demo_db))"
    by (simp add: demo_db_def demo_version_def)
  have "\<not> (\<exists>d' r. ?bad = (d', Inr r))"
    using create_record_with_initial_version_atomic
            [where d = demo_db and clk = "clock_at ''12:00:00'' ''17:00:00''"
               and rid = "''rec-4''" and vid = "''ver-1''" and title = "''Chat Assistant''"
               and rtype = "''ai_use_case''" and c = demo_content_1 and u = mock_user
               and st = "''submitted''"] stale
    by blast
  then obtain e where "snd ?bad = Inl e"
    by (metis prod.collapse sum.exhaust)
  then have bad: "fst ?bad = demo_db"
    using create_record_with_initial_version_atomic
            [where d = demo_db and clk = "clock_at ''12:00:00'' ''17:00:00''"
               and rid = "''rec-4''" and vid = "''ver-1''" and title = "''Chat Assistant''"
               and rtype = "''ai_use_case''" and c = demo_content_1 and u = mock_user
               and st = "''submitted''"]
    by (auto split: prod.splits sum.splits)
  note inst = create_record_with_initial_version_atomic
            [where d = demo_db and clk = "clock_at ''12:00:00'' ''17:00:00''"
               and rid = "''rec-4''" and vid = "''ver-4''" and title = "''Chat Assistant''"
               and rtype = "''ai_use_case''" and c = demo_content_1 and u = mock_user
               and st = "''submitted''"]
  from inst fresh obtain d' r where eq: "?good = (d', Inr r)" by blast
  from inst have "\<exists>v. rec_status r = ''submitted''
              \<and> get_current_version d' (rec_id r) = Some v
              \<and> ver_version_number v = 1 \<and> ver_version_type v = ''draft''
              \<and> ver_parent_version_id v = None"
    unfolding eq by auto
  then show ?thesis using bad eq by blast
qed

text \<open>
  C2. In every store reached from the empty one by calls of the repository, the
  versions that \<open>list_versions_for_record\<close> returns for a stored record are numbered
  \<open>1, \<dots>, N\<close> with \<open>N \<ge> 1\<close>, and their order is the order in which they were
  inserted. A successful \<open>create_new_version\<close> gives the new version the greatest
  existing number of the record plus one and puts it at the end of that list.
\<close>

theorem version_numbering:
  "(\<forall>r \<in> set (records (run cmds)).
      list_versions_for_record (run cmds) (rec_id r) \<noteq> []
      \<and> map ver_version_number (list_versions_for_record (run cmds) (rec_id r))
          = [1..int (length (list_versions_for_record (run cmds) (rec_id r)))]
      \<and> list_versions_for_record (run cmds) (rec_id r) = versions_of (run cmds) (rec_id r))
   \<and> (create_new_version (run cmds) clk vid rid t c u vt st = (d', Inr v) \<longrightarrow>
        ver_version_number v
          = Max (set (map ver_version_number (list_versions_for_record (run cmds) rid))) + 1
        \<and> list_versions_for_record d' rid = list_versions_for_record (run cmds) rid @ [v])"
proof -
  note inv = store_inv_run [of cmds]
  note sorted_id = list_versions_in_insertion_order
  have part1: "\<forall>r \<in> set (records (run cmds)).
      list_versions_for_record (run cmds) (rec_id r) \<noteq> []
      \<and> map ver_version_number (list_versions_for_record (run cmds) (rec_id r))
          = [1..int (length (list_versions_for_record (run cmds) (rec_id r)))]
      \<and> list_versions_for_record (run cmds) (rec_id r) = versions_of (run cmds) (rec_id r)"
    using inv unfolding sorted_id [OF inv] by (simp add: store_inv_def)
  have part2: "ver_version_number v
          = Max (set (map ver_version_number (list_versions_for_record (run cmds) rid))) + 1
        \<and> list_versions_for_record d' rid = list_versions_for_record (run cmds) rid @ [v]"
    if ok: "create_new_version (run cmds) clk vid rid t c u vt st = (d', Inr v)"
  proof -
    have inv': "store_inv d'"
      using store_inv_create_new_version [OF inv, of clk vid rid t c u vt st] ok by simp
    from create_new_version_success [OF ok] obtain r :: record_row where
      r: "find (\<lambda>r. rec_id r = rid) (records (run cmds)) = Some r" and
      v: "ver_record_id v = rid" "ver_version_number v = next_version_number (run cmds) rid" and
      d': "d' = update_record vid (case st of None \<Rightarrow> rec_status r | Some s \<Rightarrow> s) t rid
                    ((run cmds)\<lparr>record_versions := record_versions (run cmds) @ [v]\<rparr>)"
      by auto
    have mem: "rid \<in> set (map rec_id (records (run cmds)))"
      using find_Some_mem [OF r] by auto
    have ne: "versions_of (run cmds) rid \<noteq> []" by (rule store_inv_nonempty [OF inv mem])
    have nums: "map ver_version_number (versions_of (run cmds) rid)
                = [1..int (length (versions_of (run cmds) rid))]"
      using inv by (simp add: store_inv_def)
    have "Max (set (map ver_version_number (versions_of (run cmds) rid)))
          = int (length (versions_of (run cmds) rid))"
      unfolding nums using ne by (intro Max_upto) simp
    then have n: "ver_version_number v
          = Max (set (map ver_version_number (versions_of (run cmds) rid))) + 1"
      using v next_version_number_inv [OF inv, of rid] by simp
    have "record_versions d' = record_versions (run cmds) @ [v]"
      unfolding d' by (simp add: update_record_def)
    then have "versions_of d' rid = versions_of (run cmds) rid @ [v]"
      using v by (simp add: versions_of_snoc)
    then show ?thesis
      using n unfolding sorted_id [OF inv] sorted_id [OF inv'] by simp
  qed
  show ?thesis using part1 part2 by blast
qed

theorem version_numbering_witness:
  "demo_record ''rec-1'' ''ver-1'' ''Fraud Detection in Benefit Claims'' mock_user
      ''09:00:00'' ''draft'' \<in> set (records (run demo_cmds))
   \<and> map ver_version_number (list_versions_for_record (run demo_cmds) ''rec-1'') = [1]
   \<and> (\<exists>d' v. create_new_version (run demo_cmds) (clock_at ''12:00:00'' ''17:00:00'')
                ''ver-4'' ''rec-1'' ''Fraud Detection v2'' demo_content_1 mock_user ''edit''
                None = (d', Inr v)
            \<and> ver_version_number v = 2
            \<and> map ver_version_number (list_versions_for_record d' ''rec-1'') = [1, 2])"
proof -
  let ?r = "demo_record ''rec-1'' ''ver-1'' ''Fraud Detection in Benefit Claims'' mock_user
              ''09:00:00'' ''draft''"
  let ?call = "create_new_version (run demo_cmds) (clock_at ''12:00:00'' ''17:00:00'')
                 ''ver-4'' ''rec-1'' ''Fraud Detection v2'' demo_content_1 mock_user ''edit''
                 None"
  have mem: "?r \<in> set (records (run demo_cmds))"
    by (simp add: run_demo_cmds demo_db_def)
  have rid: "rec_id ?r = ''rec-1''" by (simp add: demo_record_def)
  have len: "length (list_versions_for_record (run demo_cmds) ''rec-1'') = 1"
    by (simp add: run_demo_cmds list_versions_for_record_def versions_of_def demo_db_def
        demo_version_def)
  have "\<exists>v. snd ?call = Inr v"
    by (simp add: run_demo_cmds create_new_version_def commit_or_rollback_def
        insert_record_version_def versions_of_def demo_db_def demo_record_def
        demo_version_def Let_def)
  then obtain d' v where eq: "?call = (d', Inr v)" by (metis prod.collapse)
  note inst = version_numbering
                [where cmds = demo_cmds and clk = "clock_at ''12:00:00'' ''17:00:00''"
                   and vid = "''ver-4''" and rid = "''rec-1''"
                   and t = "''Fraud Detection v2''" and c = demo_content_1
                   and u = mock_user and vt = "''edit''" and st = None and d' = d'
                   and v = v]
  from inst mem rid
  have nums: "map ver_version_number (list_versions_for_record (run demo_cmds) ''rec-1'')
              = [1..int (length (list_versions_for_record (run demo_cmds) ''rec-1''))]"
    by (metis (no_types, lifting))
  then have one: "map ver_version_number (list_versions_for_record (run demo_cmds) ''rec-1'')
                  = [1]"
    unfolding len by simp
  from inst eq
  have new: "ver_version_number v
          = Max (set (map ver_version_number
                        (list_versions_for_record (run demo_cmds) ''rec-1''))) + 1"
    and app: "list_versions_for_record d' ''rec-1''
              = list_versions_for_record (run demo_cmds) ''rec-1'' @ [v]"
    by blast+
  have two: "ver_version_number v = 2" using new unfolding one by simp
  have both: "map ver_version_number (list_versions_for_record d' ''rec-1'') = [1, 2]"
    unfolding app using one two by simp
  have "\<exists>d' v. ?call = (d', Inr v) \<and> ver_version_number v = 2
           \<and> map ver_version_number (list_versions_for_record d' ''rec-1'') = [1, 2]"
    by (rule exI [of _ d'], rule exI [of _ v]) (simp only: eq two both)
  with mem one show ?thesis by (intro conjI)
qed

text \<open>
  C1. When the editor saves a new version of a record, it compares the
  \<open>ai_metadata\<close> of the record's current version with the new one. If the author is an
  administrator and the diff is not empty, the saved version has type \<open>override\<close> and
  the save appends exactly one override event per changed tracked field, each carrying
  the triple of the diff, the record and the new version. For any other author, or for
  an empty diff, the saved version has type \<open>edit\<close> and no override event is written.
\<close>

theorem override_gating:
  assumes "show_editor_save d clk clk' uuid4 u rid form = (d', Inr (Saved v))"
  shows "\<exists>cur. get_current_version d rid = Some cur
           \<and> get_current_version d' rid = Some v
           \<and> ver_content v = form_content form
           \<and> (if is_admin u
                  \<and> diff_ai_metadata (cnt_ai_metadata (ver_content cur))
                       (cnt_ai_metadata (ver_content v)) \<noteq> []
               then ver_version_type v = ''override''
                  \<and> (\<exists>events.
                        override_events d' = override_events d @ events
                      \<and> map override_of events
                          = diff_ai_metadata (cnt_ai_metadata (ver_content cur))
                              (cnt_ai_metadata (ver_content v))
                      \<and> length events
                          = length (changed_fields (cnt_ai_metadata (ver_content cur))
                                      (cnt_ai_metadata (ver_content v)))
                      \<and> (\<forall>e \<in> set events.
                            ovr_record_id e = rid \<and> ovr_version_id e = ver_id v
                            \<and> ovr_overridden_by e = usr_id u))
               else ver_version_type v = ''edit''
                  \<and> override_events d' = override_events d)"
proof -
  from show_editor_save_Saved [OF assms] obtain cur d1 vt where
    cur: "get_current_version d rid = Some cur" and
    vt: "vt = (if is_admin u
                  \<and> diff_ai_metadata (cnt_ai_metadata (ver_content cur))
                       (Some (form_meta form)) \<noteq> []
               then ''override'' else ''edit'')" and
    cnv: "create_new_version d clk (uuid4 0) rid (frm_title form) (form_content form) u vt
            (Some (frm_status form)) = (d1, Inr v)" and
    log: "if vt = ''override''
          then log_override_events d1 clk' (\<lambda>k. uuid4 (Suc k)) rid (ver_id v)
                 (diff_ai_metadata (cnt_ai_metadata (ver_content cur))
                    (Some (form_meta form))) u
               = (d', Inr ())
          else d' = d1"
    by blast
  let ?ovs = "diff_ai_metadata (cnt_ai_metadata (ver_content cur)) (Some (form_meta form))"
  from create_new_version_success [OF cnv] obtain r :: record_row where
    v: "ver_content v = form_content form" "ver_version_type v = vt" and
    d1: "d1 = update_record (uuid4 0) (case Some (frm_status form) of
                                         None \<Rightarrow> rec_status r | Some s \<Rightarrow> s)
                (frm_title form) rid (d\<lparr>record_versions := record_versions d @ [v]\<rparr>)"
    by auto
  have ov1: "override_events d1 = override_events d"
    unfolding d1 by (simp add: update_record_def)
  have cur1: "get_current_version d1 rid = Some v"
    using create_new_version_pointer [OF cnv] by blast
  have meta: "cnt_ai_metadata (ver_content v) = Some (form_meta form)"
    using v by (simp add: form_content_def)
  show ?thesis
  proof (cases "is_admin u \<and> ?ovs \<noteq> []")
    case True
    then have vt': "vt = ''override''" using vt by simp
    then have "log_override_events d1 clk' (\<lambda>k. uuid4 (Suc k)) rid (ver_id v) ?ovs u
               = (d', Inr ())"
      using log by simp
    from log_override_events_success [OF this]
    have d': "d' = d1\<lparr>override_events :=
                       override_events d1
                       @ override_rows (\<lambda>k. uuid4 (Suc k)) 0 rid (ver_id v) u
                           (now_toronto_iso clk') ?ovs\<rparr>" .
    let ?events = "override_rows (\<lambda>k. uuid4 (Suc k)) 0 rid (ver_id v) u
                     (now_toronto_iso clk') ?ovs"
    have cur': "get_current_version d' rid = Some v"
      using cur1 unfolding d' by (simp add: get_current_version_def cong: option.case_cong)
    have e1: "override_events d' = override_events d @ ?events"
      unfolding d' by (simp add: ov1)
    have e2: "map override_of ?events = ?ovs"
      using override_rows_props by blast
    have e3: "length ?events = length (changed_fields (cnt_ai_metadata (ver_content cur))
                                         (Some (form_meta form)))"
      using arg_cong [OF e2, of length] by (simp add: length_diff_ai_metadata)
    have e4: "\<forall>e \<in> set ?events. ovr_record_id e = rid \<and> ovr_version_id e = ver_id v
                \<and> ovr_overridden_by e = usr_id u"
      using override_rows_props [of "\<lambda>k. uuid4 (Suc k)" 0 rid "ver_id v" u
                                    "now_toronto_iso clk'" ?ovs]
      by blast
    have "\<exists>events. override_events d' = override_events d @ events
            \<and> map override_of events = ?ovs
            \<and> length events = length (changed_fields (cnt_ai_metadata (ver_content cur))
                                        (Some (form_meta form)))
            \<and> (\<forall>e \<in> set events. ovr_record_id e = rid \<and> ovr_version_id e = ver_id v
                  \<and> ovr_overridden_by e = usr_id u)"
      using e1 e2 e3 e4 by blast
    then show ?thesis
      using True cur cur' v(1) v(2) vt' unfolding meta by simp
  next
    case False
    then have vt': "vt = ''edit''" using vt by simp
    then have d': "d' = d1" using log by simp
    show ?thesis
      using False cur cur1 v(1) v(2) vt' ov1 unfolding meta d' by simp
  qed
qed

theorem override_gating_witness:
  "is_admin mock_admin \<and> \<not> is_admin mock_user
   \<and> (\<exists>d' v. show_editor_save demo_db (clock_at ''12:00:00'' ''17:00:00'')
                (clock_at ''12:00:01'' ''17:00:01'') demo_uuid4 mock_admin ''rec-2''
                demo_form = (d', Inr (Saved v))
            \<and> ver_version_type v = ''override''
            \<and> map override_of (override_events d')
                = [(''ai_metadata.capability_groups'', [''Fraud Detection''],
                    [''Fraud Detection'', ''NLP''])])
   \<and> (\<exists>d' v. show_editor_save demo_db (clock_at ''12:00:00'' ''17:00:00'')
                (clock_at ''12:00:01'' ''17:00:01'') demo_uuid4 mock_user ''rec-2''
                demo_form = (d', Inr (Saved v))
            \<and> ver_version_type v = ''edit''
            \<and> override_events d' = [])"
proof -
  let ?admin_save = "show_editor_save demo_db (clock_at ''12:00:00'' ''17:00:00'')
                       (clock_at ''12:00:01'' ''17:00:01'') demo_uuid4 mock_admin ''rec-2''
                       demo_form"
  let ?user_save = "show_editor_save demo_db (clock_at ''12:00:00'' ''17:00:00'')
                      (clock_at ''12:00:01'' ''17:00:01'') demo_uuid4 mock_user ''rec-2''
                      demo_form"
  let ?change = "(''ai_metadata.capability_groups'', [''Fraud Detection''],
                  [''Fraud Detection'', ''NLP''])"
  have adm: "is_admin mock_admin" and usr: "\<not> is_admin mock_user"
    by (simp_all add: is_admin_def ADMIN_def mock_admin_def mock_user_def)
  have cur: "get_current_version demo_db ''rec-2''
             = Some (demo_version ''ver-2'' ''rec-2'' mock_user ''10:00:00'')"
    by (simp add: get_current_version_def demo_db_def demo_record_def demo_version_def)
  have diff: "diff_ai_metadata
                (cnt_ai_metadata (ver_content (demo_version ''ver-2'' ''rec-2'' mock_user
                                                 ''10:00:00'')))
                (cnt_ai_metadata (form_content demo_form)) = [?change]"
    by (simp add: diff_ai_metadata_def or_empty_dict_def get_or_empty_def demo_version_def
        demo_content_1_def form_content_def form_meta_def demo_form_def)
  have "case snd ?admin_save of Inr (Saved v) \<Rightarrow> True | _ \<Rightarrow> False"
    by code_simp
  then have "\<exists>v. snd ?admin_save = Inr (Saved v)"
    by (simp split: sum.splits editor_outcome.splits)
  then obtain d1 v1 where eq1: "?admin_save = (d1, Inr (Saved v1))"
    by (metis prod.collapse)
  have "case snd ?user_save of Inr (Saved v) \<Rightarrow> True | _ \<Rightarrow> False"
    by code_simp
  then have "\<exists>v. snd ?user_save = Inr (Saved v)"
    by (simp split: sum.splits editor_outcome.splits)
  then obtain d2 v2 where eq2: "?user_save = (d2, Inr (Saved v2))"
    by (metis prod.collapse)
  have no_events: "override_events demo_db = []" by (simp add: demo_db_def)
  from override_gating [OF eq1] obtain cur1 where
    g1: "get_current_version demo_db ''rec-2'' = Some cur1" and
    c1: "ver_content v1 = form_content demo_form" and
    b1: "if is_admin mock_admin
            \<and> diff_ai_metadata (cnt_ai_metadata (ver_content cur1))
                 (cnt_ai_metadata (ver_content v1)) \<noteq> []
         then ver_version_type v1 = ''override''
            \<and> (\<exists>events.
                  override_events d1 = override_events demo_db @ events
                \<and> map override_of events
                    = diff_ai_metadata (cnt_ai_metadata (ver_content cur1))
                        (cnt_ai_metadata (ver_content v1))
                \<and> length events
                    = length (changed_fields (cnt_ai_metadata (ver_content cur1))
                                (cnt_ai_metadata (ver_content v1)))
                \<and> (\<forall>e \<in> set events.
                      ovr_record_id e = ''rec-2'' \<and> ovr_version_id e = ver_id v1
                      \<and> ovr_overridden_by e = usr_id mock_admin))
         else ver_version_type v1 = ''edit''
            \<and> override_events d1 = override_events demo_db"
    by blast
  have cur1: "cur1 = demo_version ''ver-2'' ''rec-2'' mock_user ''10:00:00''"
    using g1 cur by simp
  have d1: "diff_ai_metadata (cnt_ai_metadata (ver_content cur1))
              (cnt_ai_metadata (ver_content v1)) = [?change]"
    unfolding cur1 c1 by (rule diff)
  from b1 adm have t1: "ver_version_type v1 = ''override''"
    and ex: "\<exists>events. override_events d1 = override_events demo_db @ events
                  \<and> map override_of events = [?change]"
    unfolding d1 by auto
  from ex have m1: "map override_of (override_events d1) = [?change]"
    by (clarsimp simp add: no_events)
  have first: "\<exists>d' v. ?admin_save = (d', Inr (Saved v))
                      \<and> ver_version_type v = ''override''
                      \<and> map override_of (override_events d') = [?change]"
    by (rule exI [of _ d1], rule exI [of _ v1]) (simp only: eq1 t1 m1)
  from override_gating [OF eq2] usr
  have "ver_version_type v2 = ''edit'' \<and> override_events d2 = override_events demo_db"
    by auto
  then have t2: "ver_version_type v2 = ''edit''" and m2: "override_events d2 = []"
    by (simp_all add: no_events)
  have second: "\<exists>d' v. ?user_save = (d', Inr (Saved v))
                       \<and> ver_version_type v = ''edit'' \<and> override_events d' = []"
    by (rule exI [of _ d2], rule exI [of _ v2]) (simp only: eq2 t2 m2)
  from adm usr first second show ?thesis by (intro conjI)
qed

subsection \<open>Which clock each writer reads\<close>

lemma create_record_created_at:
  assumes "create_record_with_initial_version d clk rid vid title rtype c u st = (d', Inr r)"
  shows "rec_created_at r = now_toronto_iso clk"
  using assms
  by (auto simp add: create_record_with_initial_version_def commit_or_rollback_def
      insert_record_def insert_record_version_def Let_def split: if_splits)

lemma create_new_version_created_at:
  assumes "create_new_version d clk vid rid t c u vt st = (d', Inr v)"
  shows "ver_created_at v = now_toronto_iso clk"
  using create_new_version_success [OF assms] by auto

lemma update_comment_created_at:
  assumes "c \<in> set (comments (update_comment d clk cid new_text))" and "cmt_id c = cid"
  shows "cmt_created_at c = now_toronto_iso clk"
proof -
  let ?f = "\<lambda>c. if cmt_id c = cid
                 then c\<lparr>cmt_text := new_text, cmt_created_at := now_toronto_iso clk\<rparr>
                 else c"
  have "comments (update_comment d clk cid new_text) = map ?f (comments d)"
    by (simp add: update_comment_def Let_def)
  with assms(1) have "c \<in> ?f ` set (comments d)" by simp
  then obtain c0 where c: "c = ?f c0" by (rule imageE)
  show ?thesis
  proof (cases "cmt_id c0 = cid")
    case True
    then show ?thesis using c by simp
  next
    case False
    then have "c = c0" using c by simp
    then show ?thesis using False assms(2) by simp
  qed
qed

lemma add_comment_created_at:
  assumes "add_comment d clk cid rid vid body u = (d', Inr c)"
  shows "cmt_created_at c = utc_wall clk"
  using assms
  by (auto simp add: add_comment_def commit_or_rollback_def insert_comment_def
      utcnow_isoformat_def Let_def split: if_splits)

text \<open>
  C8. \<open>add_comment\<close> on the example store at 12:00:00 Toronto time (17:00:00 UTC):
  the comment is stored with the naive UTC reading \<open>2025-01-15T17:00:00\<close>, which
  carries no offset and is not the Toronto timestamp \<open>2025-01-15T12:00:00-05:00\<close>
  that the other writers store at the same instant.
\<close>

theorem add_comment_stores_naive_utc:
  "\<exists>d' c. add_comment demo_db (clock_at ''12:00:00'' ''17:00:00'') ''cmt-1'' ''rec-1'' None
             ''Looks good'' mock_user = (d', Inr c)
         \<and> comments d' = [c]
         \<and> cmt_created_at c = ''2025-01-15T17:00:00''
         \<and> now_toronto_iso (clock_at ''12:00:00'' ''17:00:00'') = ''2025-01-15T12:00:00-05:00''
         \<and> cmt_created_at c \<noteq> now_toronto_iso (clock_at ''12:00:00'' ''17:00:00'')"
  by (simp add: add_comment_def commit_or_rollback_def insert_comment_def
      utcnow_isoformat_def now_toronto_iso_def clock_at_def demo_db_def Let_def)

end
